theory Spec2Isabelle
  imports Main "HOL-Library.Word"
begin

section \<open>Strings of the host language\<close>

text \<open>
  A JavaScript string is a sequence of 16-bit UTF-16 code units, and a regular expression
  without the \<^verbatim>\<open>u\<close> flag matches code unit by code unit. The embedding keeps that:
  a string is a list of 16-bit words. \<open>js\<close> embeds an ASCII literal.
\<close>

type_synonym jschar = "16 word"
type_synonym jsstring = "jschar list"

definition js :: "string \<Rightarrow> jsstring" where
  "js s = map of_char s"

section \<open>The phone-number extractor\<close>

text \<open>
  \<^verbatim>\<open>const phoneRegex = /(\+?[\d\s\-\(\)]{7,15})/g;\<close>

  The character escapes of the pattern: \<^verbatim>\<open>\d\<close> is \<^verbatim>\<open>[0-9]\<close>; \<^verbatim>\<open>\s\<close> is the
  language's WhiteSpace and LineTerminator code units (TAB, LF, VT, FF, CR, SP, NBSP,
  U+1680, U+2000 to U+200A, U+2028, U+2029, U+202F, U+205F, U+3000, U+FEFF).
\<close>

definition is_digit :: "jschar \<Rightarrow> bool" where
  "is_digit c \<longleftrightarrow> 0x30 \<le> c \<and> c \<le> 0x39"

definition is_space :: "jschar \<Rightarrow> bool" where
  "is_space c \<longleftrightarrow>
     c = 0x09 \<or> c = 0x0A \<or> c = 0x0B \<or> c = 0x0C \<or> c = 0x0D \<or> c = 0x20 \<or>
     c = 0xA0 \<or> c = 0x1680 \<or> (0x2000 \<le> c \<and> c \<le> 0x200A) \<or>
     c = 0x2028 \<or> c = 0x2029 \<or> c = 0x202F \<or> c = 0x205F \<or> c = 0x3000 \<or> c = 0xFEFF"

definition plus_sign :: jschar where
  "plus_sign = 0x2B"

definition hyphen :: jschar where
  "hyphen = 0x2D"

definition lparen :: jschar where
  "lparen = 0x28"

definition rparen :: jschar where
  "rparen = 0x29"

text \<open>The class \<^verbatim>\<open>[\d\s\-\(\)]\<close> of the pattern.\<close>

definition phone_class :: "jschar \<Rightarrow> bool" where
  "phone_class c \<longleftrightarrow> is_digit c \<or> is_space c \<or> c = hyphen \<or> c = lparen \<or> c = rparen"

text \<open>The class \<^verbatim>\<open>[\s\-\(\)]\<close> of the clean-up pattern.\<close>

definition strip_class :: "jschar \<Rightarrow> bool" where
  "strip_class c \<longleftrightarrow> is_space c \<or> c = hyphen \<or> c = lparen \<or> c = rparen"

text \<open>
  \<^verbatim>\<open>[\d\s\-\(\)]{7,15}\<close> tried at the start of the input. The quantifier is greedy and
  nothing follows it in the pattern, so it takes the longest run of class characters, at
  most 15, and fails when fewer than 7 are there.
\<close>

definition class_run :: "jsstring \<Rightarrow> jsstring option" where
  "class_run s =
     (let r = takeWhile phone_class (take 15 s)
      in if 7 \<le> length r then Some r else None)"

text \<open>
  The whole pattern tried at the start of the input. \<^verbatim>\<open>\+?\<close> is greedy: a leading
  plus sign is consumed first, and only when the rest then fails does the matcher
  backtrack to the empty alternative and try the class run on the same input.
\<close>

fun phoneRegex_at :: "jsstring \<Rightarrow> jsstring option" where
  "phoneRegex_at [] = class_run []"
| "phoneRegex_at (c # cs) =
     (if c = plus_sign
      then (case class_run cs of
              Some r \<Rightarrow> Some (c # r)
            | None \<Rightarrow> class_run (c # cs))
      else class_run (c # cs))"

text \<open>
  One search of the regular expression: the pattern is tried at every start position from
  left to right; the result is the matched text and the input that follows the match
  (where \<^verbatim>\<open>lastIndex\<close> then stands).
\<close>

fun phoneRegex_exec :: "jsstring \<Rightarrow> (jsstring \<times> jsstring) option" where
  "phoneRegex_exec [] =
     (case phoneRegex_at [] of
        Some m \<Rightarrow> Some (m, [])
      | None \<Rightarrow> None)"
| "phoneRegex_exec (c # cs) =
     (case phoneRegex_at (c # cs) of
        Some m \<Rightarrow> Some (m, drop (length m) (c # cs))
      | None \<Rightarrow> phoneRegex_exec cs)"

lemma class_run_length:
  "class_run s = Some r \<Longrightarrow> 7 \<le> length r \<and> length r \<le> 15 \<and> length r \<le> length s"
proof -
  assume a: "class_run s = Some r"
  have eq: "r = takeWhile phone_class (take 15 s)"
    using a by (simp add: class_run_def Let_def split: if_splits)
  have seven: "7 \<le> length r"
    using a by (simp add: class_run_def Let_def split: if_splits)
  have "length r \<le> length (take 15 s)"
    unfolding eq by (rule length_takeWhile_le)
  then show ?thesis using seven by simp
qed

lemma phoneRegex_at_length:
  "phoneRegex_at s = Some m \<Longrightarrow> 7 \<le> length m \<and> length m \<le> 16 \<and> length m \<le> length s"
proof (cases s)
  case Nil
  assume "phoneRegex_at s = Some m"
  then have "class_run [] = Some m" using Nil by simp
  from class_run_length [OF this] show ?thesis by auto
next
  case (Cons c cs)
  assume a: "phoneRegex_at s = Some m"
  show ?thesis
  proof (cases "c = plus_sign \<and> class_run cs \<noteq> None")
    case True
    then obtain r where r: "class_run cs = Some r" by auto
    with a Cons True have "m = c # r" by simp
    then show ?thesis using class_run_length [OF r] Cons by simp
  next
    case False
    with a Cons have "class_run s = Some m" by (auto split: if_splits option.splits)
    then show ?thesis using class_run_length [of s m] by simp
  qed
qed

lemma phoneRegex_exec_shorter:
  "phoneRegex_exec s = Some (m, rest) \<Longrightarrow> length rest < length s"
proof (induction s)
  case Nil
  then show ?case
    using phoneRegex_at_length [of "[]"] by (fastforce split: option.splits)
next
  case (Cons c cs)
  show ?case
  proof (cases "phoneRegex_at (c # cs)")
    case None
    with Cons have "length rest < length cs" by simp
    then show ?thesis by simp
  next
    case (Some m')
    have len: "7 \<le> length m' \<and> length m' \<le> length (c # cs)"
      using phoneRegex_at_length [OF Some] by simp
    from Cons.prems Some have "rest = drop (length m') (c # cs)"
      by (auto simp del: phoneRegex_at.simps)
    then show ?thesis using len by auto
  qed
qed

text \<open>
  \<^verbatim>\<open>message.match(phoneRegex)\<close> with the global flag: every search resumes where the
  previous match ended, and the matched texts are collected in order. (A match of this
  pattern has at least 7 code units, so the empty-match advance of the language never
  applies.) The method returns null instead of an empty array.
\<close>

function match_all :: "jsstring \<Rightarrow> jsstring list" where
  "match_all s =
     (case phoneRegex_exec s of
        None \<Rightarrow> []
      | Some (m, rest) \<Rightarrow> m # match_all rest)"
  by pat_completeness auto
termination
  by (relation "measure length") (auto dest: phoneRegex_exec_shorter)

definition str_match :: "jsstring \<Rightarrow> jsstring list option" where
  "str_match s = (case match_all s of [] \<Rightarrow> None | m # ms \<Rightarrow> Some (m # ms))"

text \<open>\<^verbatim>\<open>.replace(/[\s\-\(\)]/g, '')\<close>: every code unit of the class is removed.\<close>

definition replace_strip :: "jsstring \<Rightarrow> jsstring" where
  "replace_strip m = filter (\<lambda>c. \<not> strip_class c) m"

text \<open>
  \<^verbatim>\<open>
  const extractPhoneNumber = (message: string): string | null => {
    const phoneRegex = /(\+?[\d\s\-\(\)]{7,15})/g;
    const matches = message.match(phoneRegex);
    if (matches && matches.length > 0) {
      return matches[0].replace(/[\s\-\(\)]/g, '');
    }
    return null;
  };
  \<close>
  null is \<open>None\<close>.
\<close>

definition extractPhoneNumber :: "jsstring \<Rightarrow> jsstring option" where
  "extractPhoneNumber message =
     (case str_match message of
        None \<Rightarrow> None
      | Some matches \<Rightarrow>
          if 0 < length matches then Some (replace_strip (matches ! 0)) else None)"

section \<open>The component's state and its collaborators\<close>

text \<open>
  \<^verbatim>\<open>
  interface MqttMessage {
    topic: string;
    message: string;
    timestamp: Date;
    phoneNumber?: string;
  }
  \<close>
  A \<^verbatim>\<open>Date\<close> is its time value (milliseconds since the epoch); an absent or undefined
  \<^verbatim>\<open>phoneNumber\<close> is \<open>None\<close>.
\<close>

type_synonym date = int

record MqttMessage =
  topic :: jsstring
  message :: jsstring
  timestamp :: date
  phoneNumber :: "jsstring option"

text \<open>The argument of \<^verbatim>\<open>toast({...})\<close>; a property that is not given is \<open>None\<close>.\<close>

record ToastOptions =
  title :: jsstring
  description :: jsstring
  variant :: "jsstring option"
  duration :: "int option"

text \<open>
  The calls the component makes on its collaborators (the notification hook, the console,
  the window, the broker client), in the order they are made.
\<close>

type_synonym client = nat

datatype effect =
    Toast ToastOptions
  | ConsoleLog jsstring
  | WindowOpen jsstring jsstring
  | ClientSubscribe jsstring
  | ClientEnd client

text \<open>
  The component's \<^verbatim>\<open>useState\<close> and \<^verbatim>\<open>useRef\<close> cells that the handlers write, and the
  trace of calls made so far.
\<close>

record state =
  isConnected :: bool
  messages :: "MqttMessage list"
  showSettings :: bool
  clientRef :: "client option"
  trace :: "effect list"

text \<open>
  What the handlers read from their surroundings: \<^verbatim>\<open>window.location.hostname\<close>, whether
  \<^verbatim>\<open>window.open\<close> throws for a given URL, and \<^verbatim>\<open>config.topic\<close> as captured when the
  handlers were registered.
\<close>

record platform =
  hostname :: jsstring
  window_open_throws :: "jsstring \<Rightarrow> bool"
  config_topic :: jsstring

datatype 'a outcome = Returns 'a | Throws

text \<open>\<^verbatim>\<open>String.prototype.includes\<close>: the argument occurs somewhere as a substring.\<close>

fun str_includes :: "jsstring \<Rightarrow> jsstring \<Rightarrow> bool" where
  "str_includes [] t = (t = [])"
| "str_includes (c # cs) t = (take (length t) (c # cs) = t \<or> str_includes cs t)"

text \<open>The truthiness of a \<^verbatim>\<open>string | null\<close>: null and the empty string are falsy.\<close>

fun truthy :: "jsstring option \<Rightarrow> bool" where
  "truthy None = False"
| "truthy (Some str) = (str \<noteq> [])"

section \<open>The call trigger\<close>

text \<open>\<^verbatim>\<open>window.open(url, target)\<close>: the call is made, and it returns or throws.\<close>

definition window_open ::
  "platform \<Rightarrow> jsstring \<Rightarrow> jsstring \<Rightarrow> effect list \<Rightarrow> unit outcome \<times> effect list" where
  "window_open env url target tr =
     ((if window_open_throws env url then Throws else Returns ()), tr @ [WindowOpen url target])"

text \<open>
  \<^verbatim>\<open>
  const makePhoneCall = async (phoneNumber: string) => {
    try {
      if (window.location.hostname === 'localhost' ||
          window.location.hostname.includes('lovableproject.com')) {
        toast({ title: "Phone Call Triggered",
                description: `Would call: ${phoneNumber}`, duration: 5000 });
        console.log(`Would make call to: ${phoneNumber}`);
      } else {
        window.open(`tel:${phoneNumber}`, '_system');
      }
    } catch (error) {
      toast({ title: "Call Failed",
              description: `Could not initiate call to ${phoneNumber}`,
              variant: "destructive" });
    }
  };
  \<close>
  The body has no \<^verbatim>\<open>await\<close>, so it runs to its end when called. The result is how the
  body ends, with the trace extended by the calls it made.
\<close>

definition makePhoneCall ::
  "platform \<Rightarrow> jsstring \<Rightarrow> effect list \<Rightarrow> unit outcome \<times> effect list" where
  "makePhoneCall env phone tr =
     (case (if hostname env = js ''localhost'' \<or> str_includes (hostname env) (js ''lovableproject.com'')
            then (Returns (),
                  tr @ [Toast \<lparr>title = js ''Phone Call Triggered'',
                               description = js ''Would call: '' @ phone,
                               variant = None,
                               duration = Some 5000\<rparr>,
                        ConsoleLog (js ''Would make call to: '' @ phone)])
            else window_open env (js ''tel:'' @ phone) (js ''_system'') tr) of
        (Returns u, tr') \<Rightarrow> (Returns u, tr')
      | (Throws, tr') \<Rightarrow>
          (Returns (),
           tr' @ [Toast \<lparr>title = js ''Call Failed'',
                         description = js ''Could not initiate call to '' @ phone,
                         variant = Some (js ''destructive''),
                         duration = None\<rparr>]))"

section \<open>The message log\<close>

text \<open>
  \<^verbatim>\<open>setMessages(prev => [mqttMessage, ...prev.slice(0, 49)]);\<close>
  The updater function; \<^verbatim>\<open>slice(0, 49)\<close> is the first 49 elements, or all of them when
  there are fewer.
\<close>

definition setMessages_updater :: "MqttMessage \<Rightarrow> MqttMessage list \<Rightarrow> MqttMessage list" where
  "setMessages_updater mqttMessage prev = mqttMessage # take 49 prev"

section \<open>The connection session\<close>

text \<open>
  \<^verbatim>\<open>
  client.on('connect', () => {
    setIsConnected(true);
    setShowSettings(false);
    client.subscribe(config.topic, (err) => { ... });
  });
  \<close>
\<close>

definition on_connect :: "platform \<Rightarrow> state \<Rightarrow> state" where
  "on_connect env s =
     s\<lparr>isConnected := True,
       showSettings := False,
       trace := trace s @ [ClientSubscribe (config_topic env)]\<rparr>"

text \<open>
  The callback given to \<^verbatim>\<open>client.subscribe\<close>, called with the error or null:
  \<^verbatim>\<open>
  (err) => {
    if (err) {
      toast({ title: "Subscription Failed",
              description: `Could not subscribe to topic: ${config.topic}`,
              variant: "destructive" });
    } else {
      toast({ title: "Connected & Subscribed",
              description: `Listening to ${config.topic}` });
    }
  }
  \<close>
  An error object is truthy, whatever its message; it is modelled by its message.
\<close>

definition on_subscribed :: "platform \<Rightarrow> jsstring option \<Rightarrow> state \<Rightarrow> state" where
  "on_subscribed env err s =
     (case err of
        Some e \<Rightarrow>
          s\<lparr>trace := trace s @
              [Toast \<lparr>title = js ''Subscription Failed'',
                      description = js ''Could not subscribe to topic: '' @ config_topic env,
                      variant = Some (js ''destructive''),
                      duration = None\<rparr>]\<rparr>
      | None \<Rightarrow>
          s\<lparr>trace := trace s @
              [Toast \<lparr>title = js ''Connected & Subscribed'',
                      description = js ''Listening to '' @ config_topic env,
                      variant = None,
                      duration = None\<rparr>]\<rparr>)"

text \<open>
  \<^verbatim>\<open>
  client.on('message', (topic, message) => {
    const messageStr = message.toString();
    const phoneNumber = extractPhoneNumber(messageStr);
    const mqttMessage: MqttMessage = {
      topic,
      message: messageStr,
      timestamp: new Date(),
      phoneNumber: phoneNumber || undefined
    };
    setMessages(prev => [mqttMessage, ...prev.slice(0, 49)]);
    if (phoneNumber) {
      toast({ title: "Phone Number Detected",
              description: `Calling ${phoneNumber}...` });
      makePhoneCall(phoneNumber);
    }
  });
  \<close>
  The handler gets the topic, the text that \<^verbatim>\<open>message.toString()\<close> decodes from the
  received buffer, and the time \<^verbatim>\<open>new Date()\<close> reads. \<^verbatim>\<open>makePhoneCall\<close> is called
  without \<^verbatim>\<open>await\<close>: how it ends is not looked at. null is falsy, so the
  test \<^verbatim>\<open>if (phoneNumber)\<close> fails on it.
\<close>

definition on_message :: "platform \<Rightarrow> jsstring \<Rightarrow> jsstring \<Rightarrow> date \<Rightarrow> state \<Rightarrow> state" where
  "on_message env tpc messageStr now s =
     (let phone = extractPhoneNumber messageStr;
          mqttMessage = \<lparr>topic = tpc,
                         message = messageStr,
                         timestamp = now,
                         phoneNumber = (if truthy phone then phone else None)\<rparr>;
          s1 = s\<lparr>messages := setMessages_updater mqttMessage (messages s)\<rparr>
      in case phone of
           None \<Rightarrow> s1
         | Some p \<Rightarrow>
             if truthy (Some p)
             then s1\<lparr>trace :=
                    snd (makePhoneCall env p
                           (trace s1 @
                              [Toast \<lparr>title = js ''Phone Number Detected'',
                                      description = js ''Calling '' @ p @ js ''...'',
                                      variant = None,
                                      duration = None\<rparr>]))\<rparr>
             else s1)"

text \<open>
  \<^verbatim>\<open>
  client.on('error', (err) => {
    toast({ title: "Connection Error", description: err.message, variant: "destructive" });
  });
  client.on('close', () => { setIsConnected(false); });
  \<close>
\<close>

definition on_error :: "jsstring \<Rightarrow> state \<Rightarrow> state" where
  "on_error err_message s =
     s\<lparr>trace := trace s @
         [Toast \<lparr>title = js ''Connection Error'',
                 description = err_message,
                 variant = Some (js ''destructive''),
                 duration = None\<rparr>]\<rparr>"

definition on_close :: "state \<Rightarrow> state" where
  "on_close s = s\<lparr>isConnected := False\<rparr>"

text \<open>The events the broker client delivers to the registered handlers.\<close>

datatype event =
    Connect
  | Subscribed "jsstring option"
  | Message jsstring jsstring date
  | Error jsstring
  | Close

fun handle :: "platform \<Rightarrow> state \<Rightarrow> event \<Rightarrow> state" where
  "handle env s Connect = on_connect env s"
| "handle env s (Subscribed err) = on_subscribed env err s"
| "handle env s (Message tpc messageStr now) = on_message env tpc messageStr now s"
| "handle env s (Error err_message) = on_error err_message s"
| "handle env s Close = on_close s"

definition run :: "platform \<Rightarrow> state \<Rightarrow> event list \<Rightarrow> state" where
  "run env s evs = foldl (handle env) s evs"

text \<open>
  \<^verbatim>\<open>
  const disconnect = () => {
    if (clientRef.current) {
      clientRef.current.end();
      clientRef.current = null;
      setIsConnected(false);
      toast({ title: "Disconnected", description: "MQTT connection closed" });
    }
  };
  \<close>
\<close>

definition disconnect :: "state \<Rightarrow> state" where
  "disconnect s =
     (case clientRef s of
        Some c \<Rightarrow>
          s\<lparr>clientRef := None,
            isConnected := False,
            trace := trace s @
              [ClientEnd c,
               Toast \<lparr>title = js ''Disconnected'',
                      description = js ''MQTT connection closed'',
                      variant = None,
                      duration = None\<rparr>]\<rparr>
      | None \<Rightarrow> s)"

text \<open>The state the component starts in.\<close>

definition initial_state :: state where
  "initial_state =
     \<lparr>isConnected = False, messages = [], showSettings = True, clientRef = None, trace = []\<rparr>"

section \<open>The vocabulary of the specification\<close>

text \<open>
  The specification's words for the extractor: a match is a run of 7 to 15 characters of
  the class (digit, whitespace, hyphen, parenthesis), with or without a plus sign in
  front of it.
\<close>

definition run_ok :: "jsstring \<Rightarrow> bool" where
  "run_ok r \<longleftrightarrow> 7 \<le> length r \<and> length r \<le> 15 \<and> list_all phone_class r"

definition is_phone_match :: "jsstring \<Rightarrow> bool" where
  "is_phone_match m \<longleftrightarrow>
     run_ok m \<or> (case m of [] \<Rightarrow> False | c # r \<Rightarrow> c = plus_sign \<and> run_ok r)"

text \<open>
  The first match of an input \<open>s = pre @ m @ post\<close>: no match starts further left, and
  no match at the same start is longer.
\<close>

definition first_match :: "jsstring \<Rightarrow> jsstring \<Rightarrow> jsstring \<Rightarrow> jsstring \<Rightarrow> bool" where
  "first_match s pre m post \<longleftrightarrow>
     s = pre @ m @ post \<and> is_phone_match m \<and>
     (\<forall>pre' m' post'. s = pre' @ m' @ post' \<and> is_phone_match m' \<longrightarrow>
        length pre \<le> length pre' \<and> (length pre' = length pre \<longrightarrow> length m' \<le> length m))"

section \<open>Observations and example values\<close>

text \<open>Whether a call in the trace is a \<^verbatim>\<open>window.open\<close>, the platform's call mechanism.\<close>

fun is_window_open :: "effect \<Rightarrow> bool" where
  "is_window_open (WindowOpen url target) = True"
| "is_window_open _ = False"

text \<open>
  A message event from its topic, text and time of receipt, and the record the message
  handler builds for it.
\<close>

definition message_event :: "jsstring \<times> jsstring \<times> date \<Rightarrow> event" where
  "message_event msg = (case msg of (tpc, str, now) \<Rightarrow> Message tpc str now)"

definition logged_record :: "jsstring \<times> jsstring \<times> date \<Rightarrow> MqttMessage" where
  "logged_record msg =
     (case msg of (tpc, str, now) \<Rightarrow>
        \<lparr>topic = tpc, message = str, timestamp = now,
         phoneNumber = (if truthy (extractPhoneNumber str) then extractPhoneNumber str else None)\<rparr>)"

text \<open>
  Messages and records that differ in their time stamp, and two hosts, for concrete
  instances.
\<close>

definition numbered_payload :: "nat \<Rightarrow> jsstring \<times> jsstring \<times> date" where
  "numbered_payload i = (js ''dialer/phone'', js ''ping'', int i)"

definition numbered_message :: "nat \<Rightarrow> MqttMessage" where
  "numbered_message i =
     \<lparr>topic = js ''dialer/phone'', message = js ''ping'', timestamp = int i, phoneNumber = None\<rparr>"

definition dev_platform :: platform where
  "dev_platform =
     \<lparr>hostname = js ''localhost'', window_open_throws = (\<lambda>url. False),
      config_topic = js ''dialer/phone''\<rparr>"

definition prod_platform :: "bool \<Rightarrow> platform" where
  "prod_platform throws =
     \<lparr>hostname = js ''dialer.example.org'', window_open_throws = (\<lambda>url. throws),
      config_topic = js ''dialer/phone''\<rparr>"

text \<open>A state with a live client handle.\<close>

definition connected_state :: state where
  "connected_state =
     initial_state\<lparr>isConnected := True, showSettings := False, clientRef := Some 1\<rparr>"

section \<open>Character classes\<close>

lemmas char_class_defs =
  phone_class_def strip_class_def is_digit_def is_space_def
  plus_sign_def hyphen_def lparen_def rparen_def

lemma plus_not_phone_class: "\<not> phone_class plus_sign"
  by (simp add: phone_class_def is_digit_def is_space_def plus_sign_def hyphen_def lparen_def rparen_def)

lemma plus_not_strip_class: "\<not> strip_class plus_sign"
  by (simp add: strip_class_def is_space_def plus_sign_def hyphen_def lparen_def rparen_def)

lemma digit_not_plus: "is_digit c \<Longrightarrow> c \<noteq> plus_sign"
  by (auto simp add: is_digit_def plus_sign_def)

lemma phone_class_cases: "phone_class c \<longleftrightarrow> is_digit c \<or> strip_class c"
  by (simp add: phone_class_def strip_class_def)

section \<open>The search finds the first match\<close>

lemma takeWhile_take_prefix:
  "list_all P r \<Longrightarrow> length r \<le> n \<Longrightarrow>
   takeWhile P (take n (r @ post)) = r @ takeWhile P (take (n - length r) post)"
  by (simp add: list_all_iff takeWhile_append2)

lemma class_run_Some:
  assumes "class_run s = Some r"
  shows "run_ok r \<and> (\<exists>post. s = r @ post)"
proof -
  have eq: "r = takeWhile phone_class (take 15 s)" and seven: "7 \<le> length r"
    using assms by (simp_all add: class_run_def Let_def split: if_splits)
  have "length r \<le> length (take 15 s)" unfolding eq by (rule length_takeWhile_le)
  then have le: "length r \<le> 15" by simp
  have all: "list_all phone_class r"
    unfolding eq list_all_iff using set_takeWhileD by fastforce
  have "take 15 s = r @ dropWhile phone_class (take 15 s)" unfolding eq by simp
  then have "s = r @ (dropWhile phone_class (take 15 s) @ drop 15 s)"
    by (metis append_assoc append_take_drop_id)
  then show ?thesis using seven le all unfolding run_ok_def by blast
qed

lemma class_run_complete:
  assumes "run_ok r'"
  shows "\<exists>r. class_run (r' @ post') = Some r \<and> length r' \<le> length r"
proof -
  have all: "list_all phone_class r'" and le: "length r' \<le> 15" and seven: "7 \<le> length r'"
    using assms by (simp_all add: run_ok_def)
  have "takeWhile phone_class (take 15 (r' @ post')) =
          r' @ takeWhile phone_class (take (15 - length r') post')"
    using all le by (rule takeWhile_take_prefix)
  then have "length r' \<le> length (takeWhile phone_class (take 15 (r' @ post')))" by simp
  then show ?thesis using seven by (simp add: class_run_def Let_def)
qed

lemma phoneRegex_at_Some:
  assumes "phoneRegex_at s = Some m"
  shows "is_phone_match m \<and> (\<exists>post. s = m @ post)"
proof (cases s)
  case Nil
  with assms have "class_run [] = Some m" by simp
  from class_run_Some [OF this] show ?thesis using Nil by (auto simp add: is_phone_match_def)
next
  case (Cons c cs)
  show ?thesis
  proof (cases "c = plus_sign \<and> class_run cs \<noteq> None")
    case True
    then obtain r where r: "class_run cs = Some r" by auto
    with assms Cons True have m: "m = plus_sign # r" by simp
    from class_run_Some [OF r] show ?thesis using m Cons True by (auto simp add: is_phone_match_def)
  next
    case False
    with assms Cons have "class_run s = Some m" by (auto split: if_splits option.splits)
    from class_run_Some [OF this] show ?thesis by (simp add: is_phone_match_def)
  qed
qed

lemma phoneRegex_at_complete:
  assumes "is_phone_match m'"
  shows "\<exists>m. phoneRegex_at (m' @ post') = Some m \<and> length m' \<le> length m"
proof (cases "run_ok m'")
  case True
  then obtain r where r: "class_run (m' @ post') = Some r" "length m' \<le> length r"
    using class_run_complete by blast
  from True obtain c cs where m': "m' = c # cs" by (cases m') (auto simp add: run_ok_def)
  with True have "phone_class c" by (simp add: run_ok_def)
  then have "c \<noteq> plus_sign" using plus_not_phone_class by auto
  then have "phoneRegex_at (m' @ post') = class_run (m' @ post')" using m' by simp
  then show ?thesis using r by simp
next
  case False
  with assms obtain r' where m': "m' = plus_sign # r'" and ok: "run_ok r'"
    by (auto simp add: is_phone_match_def split: list.splits)
  from class_run_complete [OF ok] obtain r where
    r: "class_run (r' @ post') = Some r" "length r' \<le> length r" by blast
  then show ?thesis using m' by simp
qed

lemma phoneRegex_exec_Some:
  "phoneRegex_exec s = Some (m, post) \<Longrightarrow>
   \<exists>pre. s = pre @ m @ post \<and> phoneRegex_at (m @ post) = Some m \<and>
         (\<forall>k < length pre. phoneRegex_at (drop k s) = None)"
proof (induction s)
  case Nil
  then have at: "phoneRegex_at [] = Some m" and post: "post = []"
    by (auto split: option.splits simp del: phoneRegex_at.simps)
  from phoneRegex_at_Some [OF at] have "m = []" by simp
  then show ?case using at post by simp
next
  case (Cons c cs)
  show ?case
  proof (cases "phoneRegex_at (c # cs)")
    case None
    with Cons.prems have "phoneRegex_exec cs = Some (m, post)" by simp
    from Cons.IH [OF this] obtain pre where
      pre: "cs = pre @ m @ post" "phoneRegex_at (m @ post) = Some m"
           "\<forall>k < length pre. phoneRegex_at (drop k cs) = None" by blast
    have "\<forall>k < length (c # pre). phoneRegex_at (drop k (c # cs)) = None"
    proof (intro allI impI)
      fix k assume k: "k < length (c # pre)"
      show "phoneRegex_at (drop k (c # cs)) = None"
      proof (cases k)
        case 0
        then show ?thesis using None by simp
      next
        case (Suc j)
        then show ?thesis using k pre(3) by simp
      qed
    qed
    moreover have "c # cs = (c # pre) @ m @ post" using pre(1) by simp
    ultimately show ?thesis using pre(2) by blast
  next
    case (Some m')
    with Cons.prems have eq: "m = m'" "post = drop (length m') (c # cs)"
      by (auto simp del: phoneRegex_at.simps)
    from phoneRegex_at_Some [OF Some] obtain post' where p: "c # cs = m' @ post'" by blast
    then have "post = post'" using eq by (metis append_eq_conv_conj)
    then have "c # cs = [] @ m @ post" using p eq by simp
    moreover have "phoneRegex_at (m @ post) = Some m" using Some p eq \<open>post = post'\<close> by simp
    ultimately show ?thesis by (metis length_greater_0_conv list.size(3) not_less_zero)
  qed
qed

lemma phoneRegex_exec_None:
  "phoneRegex_exec s = None \<Longrightarrow> k \<le> length s \<Longrightarrow> phoneRegex_at (drop k s) = None"
proof (induction s arbitrary: k)
  case Nil
  then show ?case by (auto split: option.splits simp del: phoneRegex_at.simps)
next
  case (Cons c cs)
  from Cons.prems(1) have at: "phoneRegex_at (c # cs) = None" and ex: "phoneRegex_exec cs = None"
    by (auto split: option.splits simp del: phoneRegex_at.simps)
  show ?case
  proof (cases k)
    case 0
    then show ?thesis using at by simp
  next
    case (Suc j)
    then show ?thesis using Cons.IH [OF ex, of j] Cons.prems(2) by simp
  qed
qed

lemma extractPhoneNumber_exec:
  "extractPhoneNumber s =
     (case phoneRegex_exec s of None \<Rightarrow> None | Some (m, post) \<Rightarrow> Some (replace_strip m))"
  by (simp add: extractPhoneNumber_def str_match_def split: option.splits)


lemma phoneRegex_exec_first_match:
  assumes "phoneRegex_exec s = Some (m, post)"
  shows "\<exists>pre. first_match s pre m post"
proof -
  from phoneRegex_exec_Some [OF assms] obtain pre where
    s: "s = pre @ m @ post" and at: "phoneRegex_at (m @ post) = Some m" and
    none: "\<forall>k < length pre. phoneRegex_at (drop k s) = None" by blast
  have m: "is_phone_match m" using phoneRegex_at_Some [OF at] by simp
  have "length pre \<le> length pre' \<and> (length pre' = length pre \<longrightarrow> length m' \<le> length m)"
    if d: "s = pre' @ m' @ post'" and m': "is_phone_match m'" for pre' m' post'
  proof -
    from phoneRegex_at_complete [OF m', of post'] obtain x where
      x: "phoneRegex_at (m' @ post') = Some x" "length m' \<le> length x" by blast
    have dr: "drop (length pre') s = m' @ post'" using d by simp
    have left: "length pre \<le> length pre'"
    proof (rule ccontr)
      assume "\<not> length pre \<le> length pre'"
      then have "phoneRegex_at (drop (length pre') s) = None" using none by simp
      then show False using x dr by simp
    qed
    have "length m' \<le> length m" if e: "length pre' = length pre"
    proof -
      have "drop (length pre) s = m @ post" using s by simp
      then have "m' @ post' = m @ post" using dr e by simp
      then have "x = m" using x at by simp
      then show ?thesis using x by simp
    qed
    then show ?thesis using left by blast
  qed
  then show ?thesis unfolding first_match_def using s m by blast
qed

lemma phoneRegex_exec_None_iff:
  "phoneRegex_exec s = None \<longleftrightarrow> \<not> (\<exists>pre m post. s = pre @ m @ post \<and> is_phone_match m)"
proof
  assume n: "phoneRegex_exec s = None"
  show "\<not> (\<exists>pre m post. s = pre @ m @ post \<and> is_phone_match m)"
  proof
    assume "\<exists>pre m post. s = pre @ m @ post \<and> is_phone_match m"
    then obtain pre m post where d: "s = pre @ m @ post" and m: "is_phone_match m" by blast
    from phoneRegex_at_complete [OF m, of post] obtain x where
      x: "phoneRegex_at (m @ post) = Some x" by blast
    have "phoneRegex_at (drop (length pre) s) = None"
      using phoneRegex_exec_None [OF n, of "length pre"] d by simp
    then show False using x d by simp
  qed
next
  assume n: "\<not> (\<exists>pre m post. s = pre @ m @ post \<and> is_phone_match m)"
  show "phoneRegex_exec s = None"
  proof (rule ccontr)
    assume "phoneRegex_exec s \<noteq> None"
    then obtain m post where "phoneRegex_exec s = Some (m, post)" by auto
    from phoneRegex_exec_first_match [OF this] show False
      using n unfolding first_match_def by blast
  qed
qed

lemma is_phone_match_run:
  assumes "is_phone_match m"
  shows "\<exists>a t. m = a @ t \<and> 7 \<le> length t \<and> length t \<le> 15 \<and> list_all phone_class t"
proof (cases "run_ok m")
  case True
  then have "m = [] @ m \<and> 7 \<le> length m \<and> length m \<le> 15 \<and> list_all phone_class m"
    by (simp add: run_ok_def)
  then show ?thesis by blast
next
  case False
  with assms obtain r where "m = plus_sign # r" and "run_ok r"
    by (auto simp add: is_phone_match_def split: list.splits)
  then have "m = [plus_sign] @ r \<and> 7 \<le> length r \<and> length r \<le> 15 \<and> list_all phone_class r"
    by (simp add: run_ok_def)
  then show ?thesis by blast
qed

lemma replace_strip_clean: "c \<in> set (replace_strip m) \<Longrightarrow> \<not> strip_class c"
  by (simp add: replace_strip_def)

section \<open>The extractor meets its contract\<close>

text \<open>
  Claim C1. For every input string, the extractor returns a string only if the input
  contains a substring of 7 to 15 characters of the allowed class; the string it returns
  is the first match (the leftmost one, taken as far as it goes) with every whitespace
  character, hyphen and parenthesis removed, so none of these occurs in it; and it returns
  the "not found" value, null, exactly when the input has no match. "Space" is read as
  the whitespace class of the pattern.
\<close>

theorem extractPhoneNumber_first_match:
  "(extractPhoneNumber s = None \<longleftrightarrow>
      \<not> (\<exists>pre m post. s = pre @ m @ post \<and> is_phone_match m)) \<and>
   (\<forall>r. extractPhoneNumber s = Some r \<longrightarrow>
      (\<exists>pre t post. s = pre @ t @ post \<and> 7 \<le> length t \<and> length t \<le> 15 \<and>
                     list_all phone_class t) \<and>
      (\<exists>pre m post. first_match s pre m post \<and>
         r = filter (\<lambda>c. \<not> (is_space c \<or> c = hyphen \<or> c = lparen \<or> c = rparen)) m) \<and>
      (\<forall>c \<in> set r. \<not> is_space c \<and> c \<noteq> hyphen \<and> c \<noteq> lparen \<and> c \<noteq> rparen))"
proof (intro conjI allI impI)
  show "extractPhoneNumber s = None \<longleftrightarrow>
          \<not> (\<exists>pre m post. s = pre @ m @ post \<and> is_phone_match m)"
    using phoneRegex_exec_None_iff [of s]
    by (auto simp add: extractPhoneNumber_exec split: option.splits)
next
  fix r assume a: "extractPhoneNumber s = Some r"
  then obtain m post where ex: "phoneRegex_exec s = Some (m, post)" and r: "r = replace_strip m"
    by (auto simp add: extractPhoneNumber_exec split: option.splits)
  from phoneRegex_exec_first_match [OF ex] obtain pre where fm: "first_match s pre m post"
    by blast
  then have s: "s = pre @ m @ post" and m: "is_phone_match m" by (simp_all add: first_match_def)
  from is_phone_match_run [OF m] obtain a t where
    t: "m = a @ t" "7 \<le> length t" "length t \<le> 15" "list_all phone_class t" by blast
  have "s = (pre @ a) @ t @ post" using s t(1) by simp
  then show "\<exists>pre t post. s = pre @ t @ post \<and> 7 \<le> length t \<and> length t \<le> 15 \<and>
                     list_all phone_class t"
    using t by blast
  have "r = filter (\<lambda>c. \<not> (is_space c \<or> c = hyphen \<or> c = lparen \<or> c = rparen)) m"
    using r by (simp add: replace_strip_def strip_class_def)
  then show "\<exists>pre m post. first_match s pre m post \<and>
         r = filter (\<lambda>c. \<not> (is_space c \<or> c = hyphen \<or> c = lparen \<or> c = rparen)) m"
    using fm by blast
  show "\<forall>c \<in> set r. \<not> is_space c \<and> c \<noteq> hyphen \<and> c \<noteq> lparen \<and> c \<noteq> rparen"
    using r replace_strip_clean [of _ m] by (auto simp add: strip_class_def)
qed


theorem extractPhoneNumber_first_match_witness:
  "extractPhoneNumber (js ''call me at (555) 123-4567 please'') = Some (js ''5551234567'') \<and>
   (\<exists>pre t post. js ''call me at (555) 123-4567 please'' = pre @ t @ post \<and>
      7 \<le> length t \<and> length t \<le> 15 \<and> list_all phone_class t) \<and>
   (\<exists>pre m post. first_match (js ''call me at (555) 123-4567 please'') pre m post \<and>
      js ''5551234567'' =
        filter (\<lambda>c. \<not> (is_space c \<or> c = hyphen \<or> c = lparen \<or> c = rparen)) m) \<and>
   extractPhoneNumber (js ''no digits here'') = None \<and>
   \<not> (\<exists>pre m post. js ''no digits here'' = pre @ m @ post \<and> is_phone_match m)"
proof -
  have found: "extractPhoneNumber (js ''call me at (555) 123-4567 please'') =
                 Some (js ''5551234567'')"
    by (simp add: extractPhoneNumber_exec js_def class_run_def replace_strip_def char_class_defs)
  have absent: "extractPhoneNumber (js ''no digits here'') = None"
    by (simp add: extractPhoneNumber_exec js_def class_run_def char_class_defs)
  note at_found =
    extractPhoneNumber_first_match [of "js ''call me at (555) 123-4567 please''",
      THEN conjunct2, THEN spec, of "js ''5551234567''", THEN mp, OF found]
  note at_absent =
    extractPhoneNumber_first_match [of "js ''no digits here''", THEN conjunct1, THEN iffD1,
      OF absent]
  show ?thesis
    using found at_found [THEN conjunct1] at_found [THEN conjunct2, THEN conjunct1]
      absent at_absent
    by (intro conjI)
qed

section \<open>The message log stays bounded and ordered\<close>

lemma take_updater:
  "k \<le> 50 \<Longrightarrow> take k (r # take 49 acc) = take k (r # acc)"
  by (cases k) (simp_all add: min_def)

lemma foldl_updater:
  "length acc \<le> 50 \<Longrightarrow>
   foldl (\<lambda>log r. setMessages_updater r log) acc rs = take 50 (rev rs @ acc)"
proof (induction rs arbitrary: acc)
  case Nil
  then show ?case by simp
next
  case (Cons r rs)
  have "length (setMessages_updater r acc) \<le> 50"
    by (simp add: setMessages_updater_def)
  from Cons.IH [OF this]
  have "foldl (\<lambda>log r. setMessages_updater r log) acc (r # rs) =
          take 50 (rev rs @ r # take 49 acc)"
    by (simp add: setMessages_updater_def)
  also have "\<dots> = take 50 (rev rs) @ take (50 - length rs) (r # take 49 acc)"
    by simp
  also have "\<dots> = take 50 (rev rs) @ take (50 - length rs) (r # acc)"
    by (simp only: take_updater [of "50 - length rs" r acc, simplified])
  also have "\<dots> = take 50 (rev (r # rs) @ acc)"
    by simp
  finally show ?case .
qed

lemma on_message_messages:
  "messages (on_message env tpc str now s) =
     setMessages_updater
       \<lparr>topic = tpc, message = str, timestamp = now,
        phoneNumber = (if truthy (extractPhoneNumber str) then extractPhoneNumber str else None)\<rparr>
       (messages s)"
  by (simp add: on_message_def Let_def split: option.splits)

lemma handle_messages_bound:
  "length (messages (handle env s ev)) \<le> max 50 (length (messages s))"
proof (cases ev)
  case Connect
  then show ?thesis by (simp add: on_connect_def)
next
  case (Subscribed err)
  then show ?thesis by (simp add: on_subscribed_def split: option.splits)
next
  case (Message tpc str now)
  have "length (messages (on_message env tpc str now s)) \<le> 50"
    unfolding on_message_messages by (simp add: setMessages_updater_def)
  then show ?thesis using Message by simp
next
  case (Error e)
  then show ?thesis by (simp add: on_error_def)
next
  case Close
  then show ?thesis by (simp add: on_close_def)
qed

lemma run_messages_bound:
  "length (messages (run env s evs)) \<le> max 50 (length (messages s))"
proof (induction evs arbitrary: s)
  case Nil
  show ?case by (simp add: run_def)
next
  case (Cons ev evs)
  have "length (messages (run env (handle env s ev) evs))
          \<le> max 50 (length (messages (handle env s ev)))"
    using Cons.IH [of "handle env s ev"] .
  also have "\<dots> \<le> max 50 (length (messages s))"
    using handle_messages_bound [of env s ev] by simp
  finally show ?case by (simp add: run_def)
qed

lemma run_snoc: "run env s (evs @ [ev]) = handle env (run env s evs) ev"
  by (simp add: run_def)

lemma run_message_events:
  "messages (run env s (map message_event msgs)) =
     foldl (\<lambda>log r. setMessages_updater r log) (messages s) (map logged_record msgs)"
proof (induction msgs rule: rev_induct)
  case Nil
  show ?case by (simp add: run_def)
next
  case (snoc x xs)
  obtain tpc str now where x: "x = (tpc, str, now)" by (cases x) auto
  have "messages (run env s (map message_event (xs @ [x]))) =
          messages (on_message env tpc str now (run env s (map message_event xs)))"
    using x by (simp add: run_snoc message_event_def)
  also have "\<dots> = setMessages_updater (logged_record x)
                     (messages (run env s (map message_event xs)))"
    using x by (simp add: on_message_messages logged_record_def)
  finally show ?case using snoc.IH by simp
qed

text \<open>
  Claim C2. The log never has more than 50 entries, and its entries are never reordered:
  whatever the log holds, appending puts the new record in front of the first 49 entries
  of the old log, in their old order; no sequence of events from the initial state makes
  the log longer than 50; and appending 51 records one after the other to the empty log
  leaves the last 50 of them, newest first, without the oldest.
\<close>

theorem message_log_bounded:
  "length (setMessages_updater m prev) \<le> 50 \<and>
   setMessages_updater m prev ! 0 = m \<and>
   tl (setMessages_updater m prev) = take 49 prev \<and>
   length (messages (run env initial_state evs)) \<le> 50 \<and>
   foldl (\<lambda>log r. setMessages_updater r log) [] rs = take 50 (rev rs) \<and>
   (length rs = 51 \<longrightarrow>
      foldl (\<lambda>log r. setMessages_updater r log) [] rs = rev (tl rs) \<and>
      length (foldl (\<lambda>log r. setMessages_updater r log) [] rs) = 50) \<and>
   (length msgs = 51 \<longrightarrow>
      messages (run env initial_state (map message_event msgs)) =
        rev (tl (map logged_record msgs)))"
proof (intro conjI impI)
  show "length (setMessages_updater m prev) \<le> 50"
    by (simp add: setMessages_updater_def)
  show "setMessages_updater m prev ! 0 = m"
    by (simp add: setMessages_updater_def)
  show "tl (setMessages_updater m prev) = take 49 prev"
    by (simp add: setMessages_updater_def)
  show "length (messages (run env initial_state evs)) \<le> 50"
    using run_messages_bound [of env initial_state evs] by (simp add: initial_state_def)
  show all: "foldl (\<lambda>log r. setMessages_updater r log) [] rs = take 50 (rev rs)"
    using foldl_updater [of "[]" rs] by simp
  assume len: "length rs = 51"
  have "take 50 (rev rs) = rev (drop 1 rs)"
    using len by (simp add: take_rev)
  then show last: "foldl (\<lambda>log r. setMessages_updater r log) [] rs = rev (tl rs)"
    using all by (simp add: drop_Suc)
  show "length (foldl (\<lambda>log r. setMessages_updater r log) [] rs) = 50"
    unfolding last using len by simp
next
  assume len: "length msgs = 51"
  have "messages (run env initial_state (map message_event msgs)) =
          take 50 (rev (map logged_record msgs))"
    using foldl_updater [of "[]" "map logged_record msgs"]
    by (simp add: run_message_events initial_state_def)
  also have "\<dots> = rev (drop 1 (map logged_record msgs))"
    using len by (simp add: take_rev)
  finally show "messages (run env initial_state (map message_event msgs)) =
        rev (tl (map logged_record msgs))"
    by (simp add: drop_Suc)
qed

theorem message_log_bounded_witness:
  "length (map numbered_message [0..<51]) = 51 \<and>
   foldl (\<lambda>log r. setMessages_updater r log) [] (map numbered_message [0..<51]) =
     rev (map numbered_message [1..<51]) \<and>
   length (foldl (\<lambda>log r. setMessages_updater r log) [] (map numbered_message [0..<51])) = 50 \<and>
   length (map numbered_payload [0..<51]) = 51 \<and>
   messages (run dev_platform initial_state (map message_event (map numbered_payload [0..<51]))) =
     rev (map numbered_message [1..<51])"
proof -
  have len: "length (map numbered_message [0..<51]) = 51" by simp
  have len': "length (map numbered_payload [0..<51]) = 51" by simp
  have ping: "extractPhoneNumber (js ''ping'') = None"
    by (simp add: extractPhoneNumber_exec js_def class_run_def char_class_defs)
  have rec: "logged_record (numbered_payload i) = numbered_message i" for i
    by (simp add: logged_record_def numbered_payload_def numbered_message_def ping)
  have tl: "tl (map numbered_message [0..<51]) = map numbered_message [1..<51]"
    by (simp add: upt_rec [of 0])
  have maps: "map logged_record (map numbered_payload xs) = map numbered_message xs" for xs
    by (induction xs) (simp_all add: rec)
  have tl': "tl (map logged_record (map numbered_payload [0..<51])) =
               map numbered_message [1..<51]"
    using tl by (simp only: maps)
  note at = message_log_bounded [where env = dev_platform
      and rs = "map numbered_message [0..<51]" and msgs = "map numbered_payload [0..<51]"]
  note at_records = at [THEN conjunct2, THEN conjunct2, THEN conjunct2, THEN conjunct2,
      THEN conjunct2, THEN conjunct1, THEN mp, OF len]
  note at_events = at [THEN conjunct2, THEN conjunct2, THEN conjunct2, THEN conjunct2,
      THEN conjunct2, THEN conjunct2, THEN mp, OF len']
  show ?thesis
    using len len' at_records at_events tl tl' by simp
qed

section \<open>The call trigger and the message handler\<close>

lemma makePhoneCall_dev:
  assumes "hostname env = js ''localhost'' \<or> str_includes (hostname env) (js ''lovableproject.com'')"
  shows "makePhoneCall env phone tr =
     (Returns (),
      tr @ [Toast \<lparr>title = js ''Phone Call Triggered'',
                   description = js ''Would call: '' @ phone,
                   variant = None, duration = Some 5000\<rparr>,
            ConsoleLog (js ''Would make call to: '' @ phone)])"
  using assms unfolding makePhoneCall_def by (simp only: if_True split: prod.splits outcome.splits) simp

lemma makePhoneCall_prod:
  assumes "\<not> (hostname env = js ''localhost'' \<or> str_includes (hostname env) (js ''lovableproject.com''))"
  shows "makePhoneCall env phone tr =
     (Returns (),
      tr @ WindowOpen (js ''tel:'' @ phone) (js ''_system'') #
        (if window_open_throws env (js ''tel:'' @ phone)
         then [Toast \<lparr>title = js ''Call Failed'',
                       description = js ''Could not initiate call to '' @ phone,
                       variant = Some (js ''destructive''), duration = None\<rparr>]
         else []))"
  using assms unfolding makePhoneCall_def window_open_def
  by (simp only: if_False) simp

lemma makePhoneCall_returns: "fst (makePhoneCall env phone tr) = Returns ()"
proof (cases "hostname env = js ''localhost'' \<or>
              str_includes (hostname env) (js ''lovableproject.com'')")
  case True
  show ?thesis unfolding makePhoneCall_dev [OF True] by simp
next
  case False
  show ?thesis unfolding makePhoneCall_prod [OF False] by simp
qed

lemma on_message_found:
  assumes "extractPhoneNumber str = Some p" and "p \<noteq> []"
  shows "on_message env tpc str now s =
     s\<lparr>messages :=
         \<lparr>topic = tpc, message = str, timestamp = now, phoneNumber = Some p\<rparr> #
           take 49 (messages s),
       trace :=
         snd (makePhoneCall env p
                (trace s @
                   [Toast \<lparr>title = js ''Phone Number Detected'',
                           description = js ''Calling '' @ p @ js ''...'',
                           variant = None, duration = None\<rparr>]))\<rparr>"
  using assms by (simp add: on_message_def Let_def setMessages_updater_def)

lemma on_message_not_found:
  assumes "extractPhoneNumber str = None \<or> extractPhoneNumber str = Some []"
  shows "on_message env tpc str now s =
     s\<lparr>messages :=
         \<lparr>topic = tpc, message = str, timestamp = now, phoneNumber = None\<rparr> #
           take 49 (messages s)\<rparr>"
  using assms by (auto simp add: on_message_def Let_def setMessages_updater_def)


lemma count_window_open_dev:
  assumes "hostname env = js ''localhost'' \<or> str_includes (hostname env) (js ''lovableproject.com'')"
  shows "filter is_window_open (snd (makePhoneCall env phone tr)) = filter is_window_open tr"
  unfolding makePhoneCall_dev [OF assms] by simp

lemma count_window_open_prod:
  assumes "\<not> (hostname env = js ''localhost'' \<or> str_includes (hostname env) (js ''lovableproject.com''))"
  shows "filter is_window_open (snd (makePhoneCall env phone tr)) =
           filter is_window_open tr @ [WindowOpen (js ''tel:'' @ phone) (js ''_system'')]"
  unfolding makePhoneCall_prod [OF assms] by simp

lemma makePhoneCall_extends: "\<exists>ext. ext \<noteq> [] \<and> snd (makePhoneCall env phone tr) = tr @ ext"
proof (cases "hostname env = js ''localhost'' \<or>
              str_includes (hostname env) (js ''lovableproject.com'')")
  case True
  show ?thesis unfolding makePhoneCall_dev [OF True] by simp
next
  case False
  show ?thesis unfolding makePhoneCall_prod [OF False] by simp
qed

lemma on_message_trace_grows:
  assumes "extractPhoneNumber str = Some p" and "p \<noteq> []"
  shows "trace (on_message env tpc str now s) \<noteq> trace s"
proof -
  obtain ext where
    "snd (makePhoneCall env p
            (trace s @ [Toast \<lparr>title = js ''Phone Number Detected'',
                               description = js ''Calling '' @ p @ js ''...'',
                               variant = None, duration = None\<rparr>])) =
       (trace s @ [Toast \<lparr>title = js ''Phone Number Detected'',
                          description = js ''Calling '' @ p @ js ''...'',
                          variant = None, duration = None\<rparr>]) @ ext"
    using makePhoneCall_extends by blast
  then show ?thesis unfolding on_message_found [OF assms] by simp
qed

text \<open>
  Claim C3. For every inbound message the handler builds one record (the topic, the
  decoded text, the time of receipt) and puts it in front of the log, whatever the
  extractor returns. When a number is found (the extractor returns a non-empty string)
  the record carries it, a "Phone Number Detected" notification is emitted and the call
  trigger is invoked with it; when none is found the record carries no number and nothing
  else happens. The connection status and the client handle are left alone.
\<close>

theorem on_message_pipeline:
  "messages (on_message env tpc str now s) =
     \<lparr>topic = tpc, message = str, timestamp = now,
      phoneNumber = (if truthy (extractPhoneNumber str) then extractPhoneNumber str else None)\<rparr> #
       take 49 (messages s) \<and>
   (\<forall>p. extractPhoneNumber str = Some p \<and> p \<noteq> [] \<longrightarrow>
      phoneNumber (hd (messages (on_message env tpc str now s))) = Some p \<and>
      trace (on_message env tpc str now s) =
        snd (makePhoneCall env p
               (trace s @ [Toast \<lparr>title = js ''Phone Number Detected'',
                                  description = js ''Calling '' @ p @ js ''...'',
                                  variant = None, duration = None\<rparr>]))) \<and>
   (extractPhoneNumber str = None \<longrightarrow>
      phoneNumber (hd (messages (on_message env tpc str now s))) = None \<and>
      trace (on_message env tpc str now s) = trace s) \<and>
   isConnected (on_message env tpc str now s) = isConnected s \<and>
   clientRef (on_message env tpc str now s) = clientRef s"
proof (intro conjI allI impI)
  show "messages (on_message env tpc str now s) =
     \<lparr>topic = tpc, message = str, timestamp = now,
      phoneNumber = (if truthy (extractPhoneNumber str) then extractPhoneNumber str else None)\<rparr> #
       take 49 (messages s)"
    by (simp add: on_message_messages setMessages_updater_def)
  show "isConnected (on_message env tpc str now s) = isConnected s"
    by (simp add: on_message_def Let_def split: option.splits)
  show "clientRef (on_message env tpc str now s) = clientRef s"
    by (simp add: on_message_def Let_def split: option.splits)
next
  fix p assume "extractPhoneNumber str = Some p \<and> p \<noteq> []"
  then have p: "extractPhoneNumber str = Some p" "p \<noteq> []" by simp_all
  show "phoneNumber (hd (messages (on_message env tpc str now s))) = Some p"
    unfolding on_message_found [OF p] by simp
  show "trace (on_message env tpc str now s) =
        snd (makePhoneCall env p
               (trace s @ [Toast \<lparr>title = js ''Phone Number Detected'',
                                  description = js ''Calling '' @ p @ js ''...'',
                                  variant = None, duration = None\<rparr>]))"
    unfolding on_message_found [OF p] by simp
next
  assume "extractPhoneNumber str = None"
  then have n: "extractPhoneNumber str = None \<or> extractPhoneNumber str = Some []" by simp
  show "phoneNumber (hd (messages (on_message env tpc str now s))) = None"
    unfolding on_message_not_found [OF n] by simp
  show "trace (on_message env tpc str now s) = trace s"
    unfolding on_message_not_found [OF n] by simp
qed

theorem on_message_pipeline_witness:
  "extractPhoneNumber (js ''+1 800 555 0199'') = Some (js ''+18005550199'') \<and>
   phoneNumber (hd (messages (on_message dev_platform (js ''dialer/phone'')
                                (js ''+1 800 555 0199'') 1000 initial_state))) =
     Some (js ''+18005550199'') \<and>
   trace (on_message dev_platform (js ''dialer/phone'') (js ''+1 800 555 0199'') 1000
            initial_state) =
     snd (makePhoneCall dev_platform (js ''+18005550199'')
            (trace initial_state @
               [Toast \<lparr>title = js ''Phone Number Detected'',
                       description = js ''Calling '' @ js ''+18005550199'' @ js ''...'',
                       variant = None, duration = None\<rparr>])) \<and>
   extractPhoneNumber (js ''no digits here'') = None \<and>
   trace (on_message dev_platform (js ''dialer/phone'') (js ''no digits here'') 1000
            initial_state) = trace initial_state"
proof -
  have found: "extractPhoneNumber (js ''+1 800 555 0199'') = Some (js ''+18005550199'') \<and>
               js ''+18005550199'' \<noteq> []"
    by (simp add: extractPhoneNumber_exec js_def class_run_def replace_strip_def char_class_defs)
  have absent: "extractPhoneNumber (js ''no digits here'') = None"
    by (simp add: extractPhoneNumber_exec js_def class_run_def char_class_defs)
  note at_found =
    on_message_pipeline [where env = dev_platform and tpc = "js ''dialer/phone''"
      and str = "js ''+1 800 555 0199''" and now = 1000 and s = initial_state,
      THEN conjunct2, THEN conjunct1, THEN spec, of "js ''+18005550199''", THEN mp, OF found]
  note at_absent =
    on_message_pipeline [where env = dev_platform and tpc = "js ''dialer/phone''"
      and str = "js ''no digits here''" and now = 1000 and s = initial_state,
      THEN conjunct2, THEN conjunct2, THEN conjunct1, THEN mp, OF absent]
  show ?thesis
    using found [THEN conjunct1] at_found [THEN conjunct1] at_found [THEN conjunct2]
      absent at_absent [THEN conjunct2]
    by (intro conjI)
qed

text \<open>
  Claim C4. On a development host (\<^verbatim>\<open>localhost\<close>, or a host name containing
  \<^verbatim>\<open>lovableproject.com\<close>) the call trigger never calls \<^verbatim>\<open>window.open\<close>: it emits one
  notification and one console line. On any other host it calls \<^verbatim>\<open>window.open\<close> with the
  \<^verbatim>\<open>tel:\<close> URI exactly once, and handling a message with a detected number makes exactly
  that one call; a message without a number makes none. When the call throws, a
  "Call Failed" notification follows; the trigger itself always returns.
\<close>

theorem makePhoneCall_modes:
  "((hostname env = js ''localhost'' \<or> str_includes (hostname env) (js ''lovableproject.com'')) \<longrightarrow>
      makePhoneCall env phone tr =
        (Returns (),
         tr @ [Toast \<lparr>title = js ''Phone Call Triggered'',
                      description = js ''Would call: '' @ phone,
                      variant = None, duration = Some 5000\<rparr>,
               ConsoleLog (js ''Would make call to: '' @ phone)]) \<and>
      filter is_window_open (snd (makePhoneCall env phone tr)) = filter is_window_open tr \<and>
      filter is_window_open (trace (on_message env tpc str now s)) =
        filter is_window_open (trace s)) \<and>
   (\<not> (hostname env = js ''localhost'' \<or> str_includes (hostname env) (js ''lovableproject.com'')) \<longrightarrow>
      makePhoneCall env phone tr =
        (Returns (),
         tr @ WindowOpen (js ''tel:'' @ phone) (js ''_system'') #
           (if window_open_throws env (js ''tel:'' @ phone)
            then [Toast \<lparr>title = js ''Call Failed'',
                          description = js ''Could not initiate call to '' @ phone,
                          variant = Some (js ''destructive''), duration = None\<rparr>]
            else [])) \<and>
      filter is_window_open (snd (makePhoneCall env phone tr)) =
        filter is_window_open tr @ [WindowOpen (js ''tel:'' @ phone) (js ''_system'')] \<and>
      (\<forall>p. extractPhoneNumber str = Some p \<and> p \<noteq> [] \<longrightarrow>
         filter is_window_open (trace (on_message env tpc str now s)) =
           filter is_window_open (trace s) @ [WindowOpen (js ''tel:'' @ p) (js ''_system'')])) \<and>
   (extractPhoneNumber str = None \<or> extractPhoneNumber str = Some [] \<longrightarrow>
      filter is_window_open (trace (on_message env tpc str now s)) =
        filter is_window_open (trace s)) \<and>
   fst (makePhoneCall env phone tr) = Returns ()"
proof (intro conjI impI allI)
  assume dev: "hostname env = js ''localhost'' \<or>
               str_includes (hostname env) (js ''lovableproject.com'')"
  show "makePhoneCall env phone tr =
        (Returns (),
         tr @ [Toast \<lparr>title = js ''Phone Call Triggered'',
                      description = js ''Would call: '' @ phone,
                      variant = None, duration = Some 5000\<rparr>,
               ConsoleLog (js ''Would make call to: '' @ phone)])"
    using dev by (rule makePhoneCall_dev)
  show "filter is_window_open (snd (makePhoneCall env phone tr)) = filter is_window_open tr"
    using dev by (rule count_window_open_dev)
  show "filter is_window_open (trace (on_message env tpc str now s)) =
        filter is_window_open (trace s)"
  proof (cases "truthy (extractPhoneNumber str)")
    case True
    then obtain p where p: "extractPhoneNumber str = Some p" "p \<noteq> []"
      by (cases "extractPhoneNumber str") auto
    show ?thesis
      unfolding on_message_found [OF p] by (simp add: count_window_open_dev [OF dev])
  next
    case False
    then have "extractPhoneNumber str = None \<or> extractPhoneNumber str = Some []"
      by (cases "extractPhoneNumber str") auto
    then show ?thesis by (simp add: on_message_not_found)
  qed
next
  assume prod: "\<not> (hostname env = js ''localhost'' \<or>
                   str_includes (hostname env) (js ''lovableproject.com''))"
  show "makePhoneCall env phone tr =
        (Returns (),
         tr @ WindowOpen (js ''tel:'' @ phone) (js ''_system'') #
           (if window_open_throws env (js ''tel:'' @ phone)
            then [Toast \<lparr>title = js ''Call Failed'',
                          description = js ''Could not initiate call to '' @ phone,
                          variant = Some (js ''destructive''), duration = None\<rparr>]
            else []))"
    using prod by (rule makePhoneCall_prod)
  show "filter is_window_open (snd (makePhoneCall env phone tr)) =
        filter is_window_open tr @ [WindowOpen (js ''tel:'' @ phone) (js ''_system'')]"
    using prod by (rule count_window_open_prod)
  fix p assume "extractPhoneNumber str = Some p \<and> p \<noteq> []"
  then have p: "extractPhoneNumber str = Some p" "p \<noteq> []" by simp_all
  show "filter is_window_open (trace (on_message env tpc str now s)) =
          filter is_window_open (trace s) @ [WindowOpen (js ''tel:'' @ p) (js ''_system'')]"
    unfolding on_message_found [OF p] by (simp add: count_window_open_prod [OF prod])
next
  assume "extractPhoneNumber str = None \<or> extractPhoneNumber str = Some []"
  then show "filter is_window_open (trace (on_message env tpc str now s)) =
             filter is_window_open (trace s)"
    by (simp add: on_message_not_found)
next
  show "fst (makePhoneCall env phone tr) = Returns ()"
    by (rule makePhoneCall_returns)
qed


theorem makePhoneCall_modes_witness:
  "makePhoneCall dev_platform (js ''5551234567'') [] =
     (Returns (),
      [Toast \<lparr>title = js ''Phone Call Triggered'', description = js ''Would call: 5551234567'',
              variant = None, duration = Some 5000\<rparr>,
       ConsoleLog (js ''Would make call to: 5551234567'')]) \<and>
   makePhoneCall (prod_platform False) (js ''5551234567'') [] =
     (Returns (), [WindowOpen (js ''tel:5551234567'') (js ''_system'')]) \<and>
   makePhoneCall (prod_platform True) (js ''5551234567'') [] =
     (Returns (),
      [WindowOpen (js ''tel:5551234567'') (js ''_system''),
       Toast \<lparr>title = js ''Call Failed'',
              description = js ''Could not initiate call to 5551234567'',
              variant = Some (js ''destructive''), duration = None\<rparr>]) \<and>
   filter is_window_open
     (trace (on_message (prod_platform False) (js ''dialer/phone'') (js ''+1 800 555 0199'') 1000
               initial_state)) =
     [WindowOpen (js ''tel:+18005550199'') (js ''_system'')]"
proof -
  have dev: "hostname dev_platform = js ''localhost'' \<or>
             str_includes (hostname dev_platform) (js ''lovableproject.com'')"
    by (simp add: dev_platform_def)
  have prod: "\<not> (hostname (prod_platform b) = js ''localhost'' \<or>
                  str_includes (hostname (prod_platform b)) (js ''lovableproject.com''))" for b
    by (simp add: prod_platform_def js_def)
  have found: "extractPhoneNumber (js ''+1 800 555 0199'') = Some (js ''+18005550199'') \<and>
               js ''+18005550199'' \<noteq> []"
    by (simp add: extractPhoneNumber_exec js_def class_run_def replace_strip_def char_class_defs)
  note at_dev =
    makePhoneCall_modes [where env = dev_platform and phone = "js ''5551234567''" and tr = "[]",
      THEN conjunct1, THEN mp, OF dev, THEN conjunct1]
  note at_prod =
    makePhoneCall_modes [where phone = "js ''5551234567''" and tr = "[]",
      THEN conjunct2, THEN conjunct1, THEN mp, OF prod, THEN conjunct1]
  note at_message =
    makePhoneCall_modes [where env = "prod_platform False" and tpc = "js ''dialer/phone''"
      and str = "js ''+1 800 555 0199''" and now = 1000 and s = initial_state,
      THEN conjunct2, THEN conjunct1, THEN mp, OF prod, THEN conjunct2, THEN conjunct2,
      THEN spec, of "js ''+18005550199''", THEN mp, OF found]
  have one: "makePhoneCall dev_platform (js ''5551234567'') [] =
     (Returns (),
      [Toast \<lparr>title = js ''Phone Call Triggered'', description = js ''Would call: 5551234567'',
              variant = None, duration = Some 5000\<rparr>,
       ConsoleLog (js ''Would make call to: 5551234567'')])"
    using at_dev by (simp add: js_def)
  have two: "makePhoneCall (prod_platform False) (js ''5551234567'') [] =
     (Returns (), [WindowOpen (js ''tel:5551234567'') (js ''_system'')])"
    using at_prod [of False] by (simp add: js_def prod_platform_def)
  have three: "makePhoneCall (prod_platform True) (js ''5551234567'') [] =
     (Returns (),
      [WindowOpen (js ''tel:5551234567'') (js ''_system''),
       Toast \<lparr>title = js ''Call Failed'',
              description = js ''Could not initiate call to 5551234567'',
              variant = Some (js ''destructive''), duration = None\<rparr>])"
    using at_prod [of True] by (simp add: js_def prod_platform_def)
  have four: "filter is_window_open
     (trace (on_message (prod_platform False) (js ''dialer/phone'') (js ''+1 800 555 0199'') 1000
               initial_state)) =
     [WindowOpen (js ''tel:+18005550199'') (js ''_system'')]"
    using at_message by (simp add: js_def initial_state_def)
  show ?thesis using one two three four by (intro conjI)
qed

section \<open>Connection status\<close>

lemma run_messages_status:
  "isConnected (run env s (map message_event msgs)) = isConnected s"
proof (induction msgs rule: rev_induct)
  case Nil
  show ?case by (simp add: run_def)
next
  case (snoc x xs)
  obtain tpc str now where x: "x = (tpc, str, now)" by (cases x) auto
  have "isConnected (on_message env tpc str now st) = isConnected st" for st
    by (simp add: on_message_def Let_def split: option.splits)
  then show ?case using snoc x by (simp add: run_snoc message_event_def)
qed

text \<open>
  Claim C5. After any sequence of events in which a connect event is followed, at the
  end, by a close event, the status is Disconnected, whatever arrives in between; and
  message events never change the status.
\<close>

theorem closed_after_connect:
  "isConnected (run env s (before @ [Connect] @ between @ [Close])) = False \<and>
   isConnected
     (run env s (Connect # map message_event msgs @ [Close])) = False \<and>
   isConnected (run env s (map message_event msgs)) = isConnected s \<and>
   isConnected (handle env s (Message tpc str now)) = isConnected s"
proof (intro conjI)
  have "run env s (before @ [Connect] @ between @ [Close]) =
          handle env (run env s (before @ [Connect] @ between)) Close"
    using run_snoc [of env s "before @ [Connect] @ between" Close] by simp
  then show "isConnected (run env s (before @ [Connect] @ between @ [Close])) = False"
    by (simp add: on_close_def)
  have "run env s (Connect # map message_event msgs @ [Close]) =
          handle env (run env s (Connect # map message_event msgs)) Close"
    using run_snoc [of env s "Connect # map message_event msgs" Close]
    by simp
  then show "isConnected
     (run env s (Connect # map message_event msgs @ [Close])) = False"
    by (simp add: on_close_def)
  show "isConnected (run env s (map message_event msgs)) = isConnected s"
    by (rule run_messages_status)
  show "isConnected (handle env s (Message tpc str now)) = isConnected s"
    by (simp add: on_message_def Let_def split: option.splits)
qed

text \<open>
  Claim C6. When the subscription fails after a connect event, a "Subscription Failed"
  notification is emitted and the status stays Connected.
\<close>

theorem subscription_failure_keeps_connected:
  "isConnected (run env s [Connect, Subscribed (Some err)]) = True \<and>
   trace (run env s [Connect, Subscribed (Some err)]) =
     trace s @
       [ClientSubscribe (config_topic env),
        Toast \<lparr>title = js ''Subscription Failed'',
               description = js ''Could not subscribe to topic: '' @ config_topic env,
               variant = Some (js ''destructive''), duration = None\<rparr>] \<and>
   isConnected (on_subscribed env (Some err) s) = isConnected s"
  by (simp add: run_def on_connect_def on_subscribed_def)

text \<open>
  Claim C7. Disconnecting twice is disconnecting once: the first call leaves no client
  handle, and the second call changes nothing, neither the state nor the trace of calls
  and notifications.
\<close>

theorem disconnect_idempotent:
  "disconnect (disconnect s) = disconnect s \<and>
   clientRef (disconnect s) = None \<and>
   trace (disconnect (disconnect s)) = trace (disconnect s) \<and>
   (\<forall>c. clientRef s = Some c \<longrightarrow>
      disconnect s =
        s\<lparr>clientRef := None, isConnected := False,
          trace := trace s @
            [ClientEnd c,
             Toast \<lparr>title = js ''Disconnected'', description = js ''MQTT connection closed'',
                    variant = None, duration = None\<rparr>]\<rparr>)"
  by (cases "clientRef s") (simp_all add: disconnect_def)


theorem disconnect_idempotent_witness:
  "clientRef connected_state = Some 1 \<and>
   disconnect connected_state =
     connected_state\<lparr>clientRef := None, isConnected := False,
       trace := trace connected_state @
         [ClientEnd 1,
          Toast \<lparr>title = js ''Disconnected'', description = js ''MQTT connection closed'',
                 variant = None, duration = None\<rparr>]\<rparr> \<and>
   disconnect (disconnect connected_state) = disconnect connected_state"
proof -
  have live: "clientRef connected_state = Some 1"
    by (simp add: connected_state_def)
  note at = disconnect_idempotent [where s = connected_state]
  note first = at [THEN conjunct2, THEN conjunct2, THEN conjunct2, THEN spec, of 1, THEN mp,
      OF live]
  show ?thesis using live first at [THEN conjunct1] by (intro conjI)
qed

section \<open>The examples of the specification\<close>

text \<open>
  Claim C8. The three examples of the specification: a number in the middle of a
  sentence, a sentence with no number, and a number with a leading plus sign.
\<close>

theorem extractPhoneNumber_examples:
  "extractPhoneNumber (js ''call me at (555) 123-4567 please'') = Some (js ''5551234567'') \<and>
   extractPhoneNumber (js ''no digits here'') = None \<and>
   extractPhoneNumber (js ''+1 800 555 0199'') = Some (js ''+18005550199'')"
proof -
  have first: "extractPhoneNumber (js ''call me at (555) 123-4567 please'') =
                 Some (js ''5551234567'')"
    by (simp add: extractPhoneNumber_exec js_def class_run_def replace_strip_def char_class_defs)
  have second: "extractPhoneNumber (js ''no digits here'') = None"
    by (simp add: extractPhoneNumber_exec js_def class_run_def char_class_defs)
  have third: "extractPhoneNumber (js ''+1 800 555 0199'') = Some (js ''+18005550199'')"
    by (simp add: extractPhoneNumber_exec js_def class_run_def replace_strip_def char_class_defs)
  show ?thesis using first second third by simp
qed

section \<open>Empty and malformed extractions\<close>

lemma first_match_unique:
  assumes "first_match s pre m post" and "first_match s pre' m' post'"
  shows "pre' = pre \<and> m' = m \<and> post' = post"
proof -
  have d: "s = pre @ m @ post" "s = pre' @ m' @ post'"
    and im: "is_phone_match m" "is_phone_match m'"
    using assms by (simp_all add: first_match_def)
  have a: "length pre \<le> length pre' \<and> (length pre' = length pre \<longrightarrow> length m' \<le> length m)"
    using assms(1) d(2) im(2) unfolding first_match_def by blast
  have b: "length pre' \<le> length pre \<and> (length pre = length pre' \<longrightarrow> length m \<le> length m')"
    using assms(2) d(1) im(1) unfolding first_match_def by blast
  have lp: "length pre' = length pre" using a b by simp
  have lm: "length m' = length m" using a b lp by auto
  have "pre @ m @ post = pre' @ m' @ post'" using d by simp
  then have p: "pre' = pre" and r: "m @ post = m' @ post'" using lp by simp_all
  from r lm have "m' = m" and "post' = post" by simp_all
  then show ?thesis using p by simp
qed

lemma extractPhoneNumber_empty_iff:
  "extractPhoneNumber str = Some [] \<longleftrightarrow>
     (\<exists>pre m post. first_match str pre m post \<and> list_all strip_class m)"
proof
  assume "extractPhoneNumber str = Some []"
  then obtain m post where ex: "phoneRegex_exec str = Some (m, post)"
    and e: "replace_strip m = []"
    by (auto simp add: extractPhoneNumber_exec split: option.splits)
  from e have "list_all strip_class m"
    by (simp add: replace_strip_def list_all_iff filter_empty_conv)
  then show "\<exists>pre m post. first_match str pre m post \<and> list_all strip_class m"
    using phoneRegex_exec_first_match [OF ex] by blast
next
  assume "\<exists>pre m post. first_match str pre m post \<and> list_all strip_class m"
  then obtain pre m post where fm: "first_match str pre m post" and all: "list_all strip_class m"
    by blast
  have "phoneRegex_exec str \<noteq> None"
    using fm phoneRegex_exec_None_iff [of str] unfolding first_match_def by blast
  then obtain m' post' where ex: "phoneRegex_exec str = Some (m', post')" by auto
  from phoneRegex_exec_first_match [OF ex] obtain pre' where "first_match str pre' m' post'"
    by blast
  from first_match_unique [OF fm this] have "m' = m" by simp
  then have "replace_strip m' = []"
    using all by (simp add: replace_strip_def list_all_iff filter_empty_conv)
  then show "extractPhoneNumber str = Some []"
    using ex by (simp add: extractPhoneNumber_exec)
qed

text \<open>
  Claim C9. The handler attaches a number to the record and invokes the call trigger
  exactly when the extractor returns a non-empty string: then the record carries that
  string, and the trace is the one the call trigger leaves when it is run on that string
  after the "Phone Number Detected" notification, which is longer than the trace with the
  notification alone. An empty extraction is handled like null: the record is logged
  without a number and the trace does not change. The extraction is empty exactly when
  the first match consists of whitespace, hyphens and parentheses only, as for a payload
  of seven spaces.
\<close>

theorem call_trigger_iff_nonempty:
  "(phoneNumber (hd (messages (on_message env tpc str now s))) \<noteq> None \<longleftrightarrow>
      (\<exists>p. extractPhoneNumber str = Some p \<and> p \<noteq> [])) \<and>
   (trace (on_message env tpc str now s) \<noteq> trace s \<longleftrightarrow>
      (\<exists>p. extractPhoneNumber str = Some p \<and> p \<noteq> [])) \<and>
   (extractPhoneNumber str = Some [] \<longrightarrow>
      on_message env tpc str now s =
        s\<lparr>messages :=
            \<lparr>topic = tpc, message = str, timestamp = now, phoneNumber = None\<rparr> #
              take 49 (messages s)\<rparr>) \<and>
   (extractPhoneNumber str = None \<longrightarrow>
      on_message env tpc str now s =
        s\<lparr>messages :=
            \<lparr>topic = tpc, message = str, timestamp = now, phoneNumber = None\<rparr> #
              take 49 (messages s)\<rparr>) \<and>
   (extractPhoneNumber str = Some [] \<longleftrightarrow>
      (\<exists>pre m post. first_match str pre m post \<and> list_all strip_class m)) \<and>
   extractPhoneNumber (js ''       '') = Some [] \<and>
   (\<forall>p. extractPhoneNumber str = Some p \<and> p \<noteq> [] \<longrightarrow>
      on_message env tpc str now s =
        s\<lparr>messages :=
            \<lparr>topic = tpc, message = str, timestamp = now, phoneNumber = Some p\<rparr> #
              take 49 (messages s),
          trace :=
            snd (makePhoneCall env p
                   (trace s @
                      [Toast \<lparr>title = js ''Phone Number Detected'',
                              description = js ''Calling '' @ p @ js ''...'',
                              variant = None, duration = None\<rparr>]))\<rparr> \<and>
      phoneNumber (hd (messages (on_message env tpc str now s))) = Some p \<and>
      trace (on_message env tpc str now s) =
        snd (makePhoneCall env p
               (trace s @
                  [Toast \<lparr>title = js ''Phone Number Detected'',
                          description = js ''Calling '' @ p @ js ''...'',
                          variant = None, duration = None\<rparr>])) \<and>
      (\<exists>ext. ext \<noteq> [] \<and>
         trace (on_message env tpc str now s) =
           (trace s @
              [Toast \<lparr>title = js ''Phone Number Detected'',
                      description = js ''Calling '' @ p @ js ''...'',
                      variant = None, duration = None\<rparr>]) @ ext))"
proof -
  have seven: "extractPhoneNumber (js ''       '') = Some []"
    by (simp add: extractPhoneNumber_exec js_def class_run_def replace_strip_def char_class_defs)
  note empty = extractPhoneNumber_empty_iff [of str]
  have found: "on_message env tpc str now s =
        s\<lparr>messages :=
            \<lparr>topic = tpc, message = str, timestamp = now, phoneNumber = Some p\<rparr> #
              take 49 (messages s),
          trace :=
            snd (makePhoneCall env p
                   (trace s @
                      [Toast \<lparr>title = js ''Phone Number Detected'',
                              description = js ''Calling '' @ p @ js ''...'',
                              variant = None, duration = None\<rparr>]))\<rparr> \<and>
      phoneNumber (hd (messages (on_message env tpc str now s))) = Some p \<and>
      trace (on_message env tpc str now s) =
        snd (makePhoneCall env p
               (trace s @
                  [Toast \<lparr>title = js ''Phone Number Detected'',
                          description = js ''Calling '' @ p @ js ''...'',
                          variant = None, duration = None\<rparr>])) \<and>
      (\<exists>ext. ext \<noteq> [] \<and>
         trace (on_message env tpc str now s) =
           (trace s @
              [Toast \<lparr>title = js ''Phone Number Detected'',
                      description = js ''Calling '' @ p @ js ''...'',
                      variant = None, duration = None\<rparr>]) @ ext)"
    if "extractPhoneNumber str = Some p \<and> p \<noteq> []" for p
  proof -
    from that have p: "extractPhoneNumber str = Some p" "p \<noteq> []" by simp_all
    note eq = on_message_found [OF p, of env tpc now s]
    have tr: "trace (on_message env tpc str now s) =
        snd (makePhoneCall env p
               (trace s @
                  [Toast \<lparr>title = js ''Phone Number Detected'',
                          description = js ''Calling '' @ p @ js ''...'',
                          variant = None, duration = None\<rparr>]))"
      unfolding eq by simp
    have num: "phoneNumber (hd (messages (on_message env tpc str now s))) = Some p"
      unfolding eq by simp
    obtain ext where ext: "ext \<noteq> []"
      "snd (makePhoneCall env p
              (trace s @
                 [Toast \<lparr>title = js ''Phone Number Detected'',
                         description = js ''Calling '' @ p @ js ''...'',
                         variant = None, duration = None\<rparr>])) =
         (trace s @
            [Toast \<lparr>title = js ''Phone Number Detected'',
                    description = js ''Calling '' @ p @ js ''...'',
                    variant = None, duration = None\<rparr>]) @ ext"
      using makePhoneCall_extends by blast
    have "\<exists>ext. ext \<noteq> [] \<and>
         trace (on_message env tpc str now s) =
           (trace s @
              [Toast \<lparr>title = js ''Phone Number Detected'',
                      description = js ''Calling '' @ p @ js ''...'',
                      variant = None, duration = None\<rparr>]) @ ext"
      using ext tr by metis
    then show ?thesis using eq tr num by (intro conjI)
  qed
  have rest: "(phoneNumber (hd (messages (on_message env tpc str now s))) \<noteq> None \<longleftrightarrow>
      (\<exists>p. extractPhoneNumber str = Some p \<and> p \<noteq> [])) \<and>
   (trace (on_message env tpc str now s) \<noteq> trace s \<longleftrightarrow>
      (\<exists>p. extractPhoneNumber str = Some p \<and> p \<noteq> [])) \<and>
   (extractPhoneNumber str = Some [] \<longrightarrow>
      on_message env tpc str now s =
        s\<lparr>messages :=
            \<lparr>topic = tpc, message = str, timestamp = now, phoneNumber = None\<rparr> #
              take 49 (messages s)\<rparr>) \<and>
   (extractPhoneNumber str = None \<longrightarrow>
      on_message env tpc str now s =
        s\<lparr>messages :=
            \<lparr>topic = tpc, message = str, timestamp = now, phoneNumber = None\<rparr> #
              take 49 (messages s)\<rparr>) \<and>
   (extractPhoneNumber str = Some [] \<longleftrightarrow>
      (\<exists>pre m post. first_match str pre m post \<and> list_all strip_class m)) \<and>
   extractPhoneNumber (js ''       '') = Some []"
  proof (cases "\<exists>p. extractPhoneNumber str = Some p \<and> p \<noteq> []")
    case True
    then obtain p where p: "extractPhoneNumber str = Some p" "p \<noteq> []" by blast
    have "phoneNumber (hd (messages (on_message env tpc str now s))) \<noteq> None"
      unfolding on_message_found [OF p] by simp
    moreover have "trace (on_message env tpc str now s) \<noteq> trace s"
      using p by (rule on_message_trace_grows)
    ultimately show ?thesis using True p seven empty by simp
  next
    case False
    then have n: "extractPhoneNumber str = None \<or> extractPhoneNumber str = Some []"
      by (cases "extractPhoneNumber str") auto
    have "phoneNumber (hd (messages (on_message env tpc str now s))) = None"
      unfolding on_message_not_found [OF n] by simp
    moreover have "trace (on_message env tpc str now s) = trace s"
      unfolding on_message_not_found [OF n] by simp
    ultimately show ?thesis
      using False seven empty on_message_not_found [of str env tpc now s] by simp
  qed
  show ?thesis using rest found by blast
qed

theorem call_trigger_iff_nonempty_witness:
  "extractPhoneNumber (js ''       '') = Some [] \<and>
   on_message dev_platform (js ''dialer/phone'') (js ''       '') 1000 initial_state =
     initial_state\<lparr>messages :=
       \<lparr>topic = js ''dialer/phone'', message = js ''       '', timestamp = 1000,
        phoneNumber = None\<rparr> # take 49 (messages initial_state)\<rparr> \<and>
   extractPhoneNumber (js ''+1 800 555 0199'') = Some (js ''+18005550199'') \<and>
   phoneNumber (hd (messages (on_message (prod_platform False) (js ''dialer/phone'')
                                (js ''+1 800 555 0199'') 1000 initial_state))) =
     Some (js ''+18005550199'') \<and>
   trace (on_message (prod_platform False) (js ''dialer/phone'') (js ''+1 800 555 0199'') 1000
            initial_state) =
     [Toast \<lparr>title = js ''Phone Number Detected'',
             description = js ''Calling +18005550199...'',
             variant = None, duration = None\<rparr>,
      WindowOpen (js ''tel:+18005550199'') (js ''_system'')]"
proof -
  note at =
    call_trigger_iff_nonempty [where env = dev_platform and tpc = "js ''dialer/phone''"
      and str = "js ''       ''" and now = 1000 and s = initial_state]
  note seven = at [THEN conjunct2, THEN conjunct2, THEN conjunct2, THEN conjunct2,
      THEN conjunct2, THEN conjunct1]
  note logged = at [THEN conjunct2, THEN conjunct2, THEN conjunct1, THEN mp, OF seven]
  have found: "extractPhoneNumber (js ''+1 800 555 0199'') = Some (js ''+18005550199'') \<and>
               js ''+18005550199'' \<noteq> []"
    by (simp add: extractPhoneNumber_exec js_def class_run_def replace_strip_def char_class_defs)
  note at_found =
    call_trigger_iff_nonempty [where env = "prod_platform False"
      and tpc = "js ''dialer/phone''" and str = "js ''+1 800 555 0199''" and now = 1000
      and s = initial_state,
      THEN conjunct2, THEN conjunct2, THEN conjunct2, THEN conjunct2, THEN conjunct2,
      THEN conjunct2, THEN spec, of "js ''+18005550199''", THEN mp, OF found]
  have prod: "\<not> (hostname (prod_platform False) = js ''localhost'' \<or>
                  str_includes (hostname (prod_platform False)) (js ''lovableproject.com''))"
    by (simp add: prod_platform_def js_def)
  have call: "snd (makePhoneCall (prod_platform False) (js ''+18005550199'')
                     (trace initial_state @
                        [Toast \<lparr>title = js ''Phone Number Detected'',
                                description = js ''Calling '' @ js ''+18005550199'' @ js ''...'',
                                variant = None, duration = None\<rparr>])) =
     [Toast \<lparr>title = js ''Phone Number Detected'',
             description = js ''Calling +18005550199...'',
             variant = None, duration = None\<rparr>,
      WindowOpen (js ''tel:+18005550199'') (js ''_system'')]"
    unfolding makePhoneCall_prod [OF prod]
    by (simp add: js_def initial_state_def prod_platform_def)
  have dial: "trace (on_message (prod_platform False) (js ''dialer/phone'')
                       (js ''+1 800 555 0199'') 1000 initial_state) =
     [Toast \<lparr>title = js ''Phone Number Detected'',
             description = js ''Calling +18005550199...'',
             variant = None, duration = None\<rparr>,
      WindowOpen (js ''tel:+18005550199'') (js ''_system'')]"
    by (rule trans [OF at_found [THEN conjunct2, THEN conjunct2, THEN conjunct1] call])
  show ?thesis
    using seven logged found [THEN conjunct1] at_found [THEN conjunct2, THEN conjunct1] dial
    by (intro conjI)
qed

lemma strip_keeps_digits:
  "list_all phone_class r \<Longrightarrow> list_all is_digit (replace_strip r)"
  by (auto simp add: list_all_iff replace_strip_def phone_class_cases)

lemma extractPhoneNumber_digits:
  assumes "extractPhoneNumber s = Some r"
  shows "\<exists>ds. list_all is_digit ds \<and> (r = ds \<or> r = plus_sign # ds)"
proof -
  from assms obtain m post where
    ex: "phoneRegex_exec s = Some (m, post)" and r: "r = replace_strip m"
    by (auto simp add: extractPhoneNumber_exec split: option.splits)
  from phoneRegex_exec_first_match [OF ex] have m: "is_phone_match m"
    by (auto simp add: first_match_def)
  show ?thesis
  proof (cases "run_ok m")
    case True
    then have "list_all is_digit (replace_strip m)"
      by (simp add: run_ok_def strip_keeps_digits)
    then show ?thesis using r by blast
  next
    case False
    with m obtain r0 where m0: "m = plus_sign # r0" and ok: "run_ok r0"
      by (auto simp add: is_phone_match_def split: list.splits)
    have "replace_strip m = plus_sign # replace_strip r0"
      using m0 plus_not_strip_class by (simp add: replace_strip_def)
    moreover have "list_all is_digit (replace_strip r0)"
      using ok by (simp add: run_ok_def strip_keeps_digits)
    ultimately show ?thesis using r by blast
  qed
qed

text \<open>
  Claim C10. A string returned by the extractor is a sequence of decimal digits, with or
  without one plus sign in front of it; a plus sign occurs at no later position. The
  digit part may be empty: for seven spaces the extractor returns the empty string.
\<close>

theorem extractPhoneNumber_shape:
  "(\<forall>r. extractPhoneNumber s = Some r \<longrightarrow>
      (\<exists>ds. list_all is_digit ds \<and> (r = ds \<or> r = plus_sign # ds)) \<and>
      (\<forall>i. 0 < i \<and> i < length r \<longrightarrow> r ! i \<noteq> plus_sign)) \<and>
   extractPhoneNumber (js ''       '') = Some [] \<and>
   \<not> list_ex is_digit []"
proof (intro conjI allI impI)
  fix r assume a: "extractPhoneNumber s = Some r"
  from extractPhoneNumber_digits [OF a] obtain ds where
    ds: "list_all is_digit ds" "r = ds \<or> r = plus_sign # ds" by blast
  then show "\<exists>ds. list_all is_digit ds \<and> (r = ds \<or> r = plus_sign # ds)" by blast
  fix i assume i: "0 < i \<and> i < length r"
  have "is_digit (r ! i)"
  proof (cases "r = ds")
    case True
    then show ?thesis using ds(1) i by (simp add: list_all_length)
  next
    case False
    with ds(2) have r: "r = plus_sign # ds" by simp
    from i obtain j where j: "i = Suc j" by (cases i) auto
    then have "j < length ds" using i r by simp
    then show ?thesis using ds(1) r j by (simp add: list_all_length)
  qed
  then show "r ! i \<noteq> plus_sign" by (rule digit_not_plus)
next
  show "extractPhoneNumber (js ''       '') = Some []"
    by (simp add: extractPhoneNumber_exec js_def class_run_def replace_strip_def char_class_defs)
  show "\<not> list_ex is_digit []" by simp
qed

theorem extractPhoneNumber_shape_witness:
  "extractPhoneNumber (js ''+1 800 555 0199'') = Some (js ''+18005550199'') \<and>
   (\<exists>ds. list_all is_digit ds \<and>
      (js ''+18005550199'' = ds \<or> js ''+18005550199'' = plus_sign # ds))"
proof -
  have found: "extractPhoneNumber (js ''+1 800 555 0199'') = Some (js ''+18005550199'')"
    by (simp add: extractPhoneNumber_exec js_def class_run_def replace_strip_def char_class_defs)
  note at =
    extractPhoneNumber_shape [where s = "js ''+1 800 555 0199''", THEN conjunct1, THEN spec,
      of "js ''+18005550199''", THEN mp, OF found, THEN conjunct1]
  show ?thesis using found at by (intro conjI)
qed

end
